theory Spec2Isabelle
  imports Main
begin

section \<open>Data model\<close>

text \<open>
  The rows of the two tables created by \<open>initDB\<close> in \<open>api/index.ts\<close>:
  \<^verbatim>\<open>
  CREATE TABLE IF NOT EXISTS posts (
    id SERIAL PRIMARY KEY, content TEXT NOT NULL,
    scheduled_for TIMESTAMP WITH TIME ZONE NOT NULL, status TEXT NOT NULL, error TEXT,
    created_at TIMESTAMP WITH TIME ZONE DEFAULT NOW(), url TEXT, image JSONB);
  CREATE TABLE IF NOT EXISTS credentials (
    id SERIAL PRIMARY KEY, identifier TEXT NOT NULL, password TEXT NOT NULL);
  \<close>
  and the \<open>Post\<close> and \<open>Credentials\<close> interfaces of \<open>src/lib/db/types.ts\<close>.
  Instants are integers (milliseconds since the epoch). The status column only ever
  receives the three literals of the \<open>Post.status\<close> union type. The column \<open>id\<close> is
  named \<open>post_id\<close> and \<open>cred_id\<close> (\<open>id\<close> is the identity function of HOL), and the
  columns of the credentials table carry the prefix \<open>cred_\<close>.
\<close>

datatype post_status = Pending | Published | Failed

record blob_ref =
  blob_type :: string
  blob_link :: string
  mimeType :: string
  blob_size :: nat

record image_ref =
  image_url :: string
  image_type :: string
  alt :: "string option"
  blobRef :: "blob_ref option"

record post_row =
  post_id :: nat
  content :: string
  scheduled_for :: int
  status :: post_status
  error :: "string option"
  created_at :: int
  url :: "string option"
  image :: "image_ref option"

record cred_row =
  cred_id :: nat
  cred_identifier :: string
  cred_password :: string

text \<open>
  The database: the two tables, in insertion order, and the next value of each
  \<open>SERIAL\<close> sequence. Every query is answered: a connection or a statement that
  fails is outside this model. The handlers are first taken one request at a time;
  cron requests handled at the same time have a section of their own.
\<close>

record store =
  posts :: "post_row list"
  next_post_id :: nat
  credentials :: "cred_row list"
  next_cred_id :: nat

definition init_store :: store where
  "init_store = \<lparr>posts = [], next_post_id = 1, credentials = [], next_cred_id = 1\<rparr>"

text \<open>
  A value thrown by JavaScript code: an instance of \<open>Error\<close> carrying its message, or
  any other value.
\<close>

datatype thrown = ErrorObj string | NonError

text \<open>
  The social network as the handler sees it through \<open>BskyAgent\<close>: \<open>login\<close> and \<open>post\<close>
  either resolve (\<open>None\<close>) or reject with a thrown value, and may change the state
  \<open>'w\<close> of the outside world in any way.
\<close>

record 'w bsky =
  agent_login :: "'w \<Rightarrow> string \<Rightarrow> string \<Rightarrow> thrown option \<times> 'w"
  agent_post :: "'w \<Rightarrow> string \<Rightarrow> thrown option \<times> 'w"

text \<open>
  The queries and agent calls issued by the cron handler, in the order it issues them.
  \<open>Publish i t\<close> is the call \<open>agent.post({ text: t })\<close> made while the loop variable
  \<open>post\<close> is the row with id \<open>i\<close>; \<open>Caught i e\<close> marks the entry into the
  \<open>catch\<close> block of that iteration with the thrown value \<open>e\<close>.
\<close>

datatype event =
    SelectDuePosts
  | SelectCredentials
  | Login string string
  | Publish nat string
  | UpdatePublished nat
  | Caught nat thrown
  | UpdateFailed nat string

record 'w run =
  db :: store
  world :: 'w
  calls :: "event list"

section \<open>The cron handler of the API server\<close>

text \<open>
  \<^verbatim>\<open>SELECT * FROM posts WHERE status = $1 AND scheduled_for <= NOW()\<close> with
  \<open>$1 = "pending"\<close>.
\<close>

definition is_due :: "int \<Rightarrow> post_row \<Rightarrow> bool" where
  "is_due now r \<longleftrightarrow> status r = Pending \<and> scheduled_for r \<le> now"

definition select_due :: "int \<Rightarrow> post_row list \<Rightarrow> post_row list" where
  "select_due now rows = filter (is_due now) rows"

text \<open>\<^verbatim>\<open>UPDATE posts SET status = 'published' WHERE id = $2\<close>\<close>

definition update_published :: "nat \<Rightarrow> post_row list \<Rightarrow> post_row list" where
  "update_published i rows =
     map (\<lambda>r. if post_id r = i then r\<lparr>status := Published\<rparr> else r) rows"

text \<open>\<^verbatim>\<open>UPDATE posts SET status = 'failed', error = $2 WHERE id = $3\<close>\<close>

definition update_failed :: "nat \<Rightarrow> string \<Rightarrow> post_row list \<Rightarrow> post_row list" where
  "update_failed i msg rows =
     map (\<lambda>r. if post_id r = i then r\<lparr>status := Failed, error := Some msg\<rparr> else r) rows"

text \<open>\<^verbatim>\<open>error instanceof Error ? error.message : "Unknown error"\<close>\<close>

definition errorMessage :: "thrown \<Rightarrow> string" where
  "errorMessage e = (case e of ErrorObj m \<Rightarrow> m | NonError \<Rightarrow> ''Unknown error'')"

text \<open>
  The message of the \<open>TypeError\<close> that reading \<open>creds.identifier\<close> raises when
  \<open>creds\<close> is \<open>undefined\<close> (the wording is the JavaScript engine's).
\<close>

definition undefined_read_message :: string where
  "undefined_read_message = ''Cannot read properties of undefined (reading 'identifier')''"

definition log_call :: "event \<Rightarrow> 'w run \<Rightarrow> 'w run" where
  "log_call ev st = st\<lparr>calls := calls st @ [ev]\<rparr>"

definition set_posts :: "post_row list \<Rightarrow> 'w run \<Rightarrow> 'w run" where
  "set_posts rows st = st\<lparr>db := (db st)\<lparr>posts := rows\<rparr>\<rparr>"

text \<open>
  The body of the \<open>try\<close> block for one post:
  \<^verbatim>\<open>
  const { rows: [creds] } = await pool.query("SELECT * FROM credentials LIMIT 1");
  const agent = new BskyAgent({ service: "https://bsky.social" });
  await agent.login({ identifier: creds.identifier, password: creds.password });
  await agent.post({ text: post.content });
  await pool.query("UPDATE posts SET status = $1 WHERE id = $2", ["published", post.id]);
  \<close>
  The result is the thrown value, if any, and the state reached when it was thrown.
  With an empty credentials table \<open>creds\<close> is \<open>undefined\<close> and evaluating the argument
  of \<open>agent.login\<close> throws before the call is made.
\<close>

definition try_block :: "'w bsky \<Rightarrow> post_row \<Rightarrow> 'w run \<Rightarrow> thrown option \<times> 'w run" where
  "try_block net post st =
     (let st1 = log_call SelectCredentials st in
      case credentials (db st1) of
        [] \<Rightarrow> (Some (ErrorObj undefined_read_message), st1)
      | creds # _ \<Rightarrow>
          (case agent_login net (world st1) (cred_identifier creds) (cred_password creds) of
             (Some e, w1) \<Rightarrow>
               (Some e, log_call (Login (cred_identifier creds) (cred_password creds)) (st1\<lparr>world := w1\<rparr>))
           | (None, w1) \<Rightarrow>
               (let st2 = log_call (Login (cred_identifier creds) (cred_password creds)) (st1\<lparr>world := w1\<rparr>)
                in case agent_post net (world st2) (content post) of
                  (Some e, w2) \<Rightarrow>
                    (Some e, log_call (Publish (post_id post) (content post)) (st2\<lparr>world := w2\<rparr>))
                | (None, w2) \<Rightarrow>
                    (let st3 = log_call (Publish (post_id post) (content post)) (st2\<lparr>world := w2\<rparr>)
                     in (None, log_call (UpdatePublished (post_id post))
                                 (set_posts (update_published (post_id post) (posts (db st3))) st3))))))"

text \<open>
  One iteration of \<open>for (const post of posts)\<close>: the \<open>try\<close> block and its \<open>catch\<close>:
  \<^verbatim>\<open>
  } catch (error: unknown) {
    const errorMessage = error instanceof Error ? error.message : "Unknown error";
    await pool.query("UPDATE posts SET status = $1, error = $2 WHERE id = $3",
      ["failed", errorMessage, post.id]);
  }
  \<close>
\<close>

definition process_post :: "'w bsky \<Rightarrow> post_row \<Rightarrow> 'w run \<Rightarrow> 'w run" where
  "process_post net post st =
     (case try_block net post st of
        (None, st') \<Rightarrow> st'
      | (Some e, st') \<Rightarrow>
          log_call (UpdateFailed (post_id post) (errorMessage e))
            (set_posts (update_failed (post_id post) (errorMessage e) (posts (db st')))
               (log_call (Caught (post_id post) e) st')))"

fun for_each_post :: "'w bsky \<Rightarrow> post_row list \<Rightarrow> 'w run \<Rightarrow> 'w run" where
  "for_each_post net [] st = st"
| "for_each_post net (post # rest) st = for_each_post net rest (process_post net post st)"

text \<open>
  The run loop: the selection of the due posts at the instant \<open>now\<close> (the value of
  \<open>NOW()\<close>), then the loop over the selected rows.
\<close>

definition check_posts :: "'w bsky \<Rightarrow> int \<Rightarrow> 'w run \<Rightarrow> 'w run" where
  "check_posts net now st =
     for_each_post net (select_due now (posts (db st))) (log_call SelectDuePosts st)"

text \<open>
  \<open>process.env.CRON_SECRET\<close> is a string or \<open>undefined\<close>; the template literal
  \<^verbatim>\<open>`Bearer ${process.env.CRON_SECRET}`\<close> renders \<open>undefined\<close> as the text
  \<open>undefined\<close>. \<open>req.headers.authorization\<close> is a string or \<open>undefined\<close>.
\<close>

record config =
  CRON_SECRET :: "string option"

definition bearer :: "config \<Rightarrow> string" where
  "bearer cfg = ''Bearer '' @ (case CRON_SECRET cfg of None \<Rightarrow> ''undefined'' | Some s \<Rightarrow> s)"

datatype response =
    Unauthorized
  | Success
  | PostRows "post_row list"
  | PostRow post_row
  | CredRow "cred_row option"
  | NotFound

text \<open>
  \<^verbatim>\<open>
  app.post("/api/cron/check-posts", async (req, res) => {
    const authHeader = req.headers.authorization;
    if (authHeader !== `Bearer ${process.env.CRON_SECRET}`) {
      return res.status(401).json({ error: "Unauthorized" });
    }
    ... the run loop ...
    res.json({ success: true });
  });
  \<close>
\<close>

definition cron_check_posts ::
  "config \<Rightarrow> 'w bsky \<Rightarrow> int \<Rightarrow> string option \<Rightarrow> 'w run \<Rightarrow> response \<times> 'w run" where
  "cron_check_posts cfg net now authHeader st =
     (if authHeader \<noteq> Some (bearer cfg) then (Unauthorized, st)
      else (Success, check_posts net now st))"

section \<open>The other handlers of the API server\<close>

text \<open>
  The body of \<open>POST /api/posts\<close> as \<open>RemoteDB.createPost\<close> sends it: a \<open>Post\<close>
  without \<open>id\<close> and \<open>createdAt\<close>.
\<close>

record post_body =
  body_content :: string
  body_scheduledFor :: int
  body_status :: post_status
  body_error :: "string option"
  body_url :: "string option"
  body_image :: "image_ref option"

text \<open>
  \<^verbatim>\<open>
  const { content, scheduledFor, image } = req.body;
  const result = await pool.query(
    "INSERT INTO posts (content, scheduled_for, status, image) VALUES ($1, $2, $3, $4) RETURNING *",
    [content, scheduledFor, "pending", image]);
  \<close>
  The columns that the statement does not name take their defaults: the next value of
  the sequence for \<open>id\<close>, \<open>NOW()\<close> for \<open>created_at\<close>, \<open>NULL\<close> for \<open>error\<close> and \<open>url\<close>.
\<close>

definition insert_post :: "int \<Rightarrow> post_body \<Rightarrow> store \<Rightarrow> post_row \<times> store" where
  "insert_post now body s =
     (let row = \<lparr>post_id = next_post_id s, content = body_content body,
                 scheduled_for = body_scheduledFor body, status = Pending, error = None,
                 created_at = now, url = None, image = body_image body\<rparr>
      in (row, s\<lparr>posts := posts s @ [row], next_post_id := next_post_id s + 1\<rparr>))"

text \<open>\<^verbatim>\<open>DELETE FROM posts WHERE id = $1\<close>\<close>

definition delete_post :: "nat \<Rightarrow> store \<Rightarrow> store" where
  "delete_post i s = s\<lparr>posts := filter (\<lambda>r. post_id r \<noteq> i) (posts s)\<rparr>"

text \<open>\<^verbatim>\<open>DELETE FROM credentials\<close>\<close>

definition delete_credentials :: "store \<Rightarrow> store" where
  "delete_credentials s = s\<lparr>credentials := []\<rparr>"

text \<open>\<^verbatim>\<open>INSERT INTO credentials (identifier, password) VALUES ($1, $2)\<close>\<close>

definition insert_credentials :: "string \<Rightarrow> string \<Rightarrow> store \<Rightarrow> store" where
  "insert_credentials ident pw s =
     s\<lparr>credentials := credentials s @
            [\<lparr>cred_id = next_cred_id s, cred_identifier = ident, cred_password = pw\<rparr>],
       next_cred_id := next_cred_id s + 1\<rparr>"

text \<open>
  The handler of \<open>POST /api/credentials\<close>: the two statements, one after the other.
\<close>

definition set_credentials :: "string \<Rightarrow> string \<Rightarrow> store \<Rightarrow> store" where
  "set_credentials ident pw s = insert_credentials ident pw (delete_credentials s)"

text \<open>
  \<^verbatim>\<open>SELECT * FROM credentials LIMIT 1\<close> followed by \<open>result.rows[0]\<close>, which is
  \<open>undefined\<close> (here \<open>None\<close>) when the table is empty.
\<close>

definition first_credentials :: "store \<Rightarrow> cred_row option" where
  "first_credentials s = (case credentials s of [] \<Rightarrow> None | c # _ \<Rightarrow> Some c)"

text \<open>
  The requests. The server registers a handler for each of them except the last:
  \<open>RemoteDB.updatePost\<close> sends \<open>PATCH /api/posts/:id\<close>, for which \<open>api/index.ts\<close>
  has no route, so that Express answers 404 whatever the body is.
\<close>

datatype request =
    GET_posts_pending
  | GET_posts
  | POST_posts post_body
  | DELETE_posts nat
  | POST_cron_check_posts "string option"
  | GET_credentials
  | POST_credentials string string
  | DELETE_credentials
  | PATCH_posts nat

definition handle ::
  "config \<Rightarrow> 'w bsky \<Rightarrow> int \<Rightarrow> request \<Rightarrow> 'w run \<Rightarrow> response \<times> 'w run" where
  "handle cfg net now req st =
     (case req of
        GET_posts_pending \<Rightarrow> (PostRows (select_due now (posts (db st))), st)
      | GET_posts \<Rightarrow> (PostRows (posts (db st)), st)
      | POST_posts body \<Rightarrow>
          (case insert_post now body (db st) of (row, s') \<Rightarrow> (PostRow row, st\<lparr>db := s'\<rparr>))
      | DELETE_posts i \<Rightarrow> (Success, st\<lparr>db := delete_post i (db st)\<rparr>)
      | POST_cron_check_posts authHeader \<Rightarrow> cron_check_posts cfg net now authHeader st
      | GET_credentials \<Rightarrow> (CredRow (first_credentials (db st)), st)
      | POST_credentials ident pw \<Rightarrow> (Success, st\<lparr>db := set_credentials ident pw (db st)\<rparr>)
      | DELETE_credentials \<Rightarrow> (Success, st\<lparr>db := delete_credentials (db st)\<rparr>)
      | PATCH_posts i \<Rightarrow> (NotFound, st))"

text \<open>
  The states of the server when it handles its requests one at a time: it starts on the
  empty tables that \<open>initDB\<close> creates, and each request is handled from its first
  statement to its response, at some instant and in some state of the outside world,
  before the next one begins. The states that two requests handled at the same time
  can produce are not among these; see the overlapping runs below.
\<close>

inductive reachable_serially :: "config \<Rightarrow> 'w bsky \<Rightarrow> 'w run \<Rightarrow> bool" for cfg net where
  start: "db st = init_store \<Longrightarrow> reachable_serially cfg net st"
| request: "reachable_serially cfg net st \<Longrightarrow> handle cfg net now req st = (resp, st') \<Longrightarrow>
            reachable_serially cfg net st'"

code_pred reachable_serially .

section \<open>Cron requests that overlap\<close>

text \<open>
  The handlers are \<open>async\<close>: the cron handler awaits its \<open>SELECT\<close> and then, for each
  selected row, the queries and agent calls of the iteration, and the server may run
  another request at each \<open>await\<close>. Nothing guards the two \<open>UPDATE\<close> statements: they
  name the row by its id only, not by its status. A server with cron requests in
  flight is its state and, for each request that has passed the guard and made its
  selection, the rows of its batch that it has still to process.

  The actions: \<open>Whole\<close>, a request handled from start to end; \<open>Begin\<close>, a cron request
  is received, checks its header and makes its selection; \<open>Iterate k\<close>, the cron
  request number \<open>k\<close> runs the next iteration of its loop, on the row as it selected
  it. Every action is something the server can do. The server can also interleave
  inside an iteration, which these actions leave out: they serve to exhibit executions
  of the server, not to bound them.
\<close>

record 'w server =
  current :: "'w run"
  in_flight :: "post_row list list"

datatype action =
    Whole int request
  | Begin int "string option"
  | Iterate nat

fun act :: "config \<Rightarrow> 'w bsky \<Rightarrow> action \<Rightarrow> 'w server \<Rightarrow> 'w server option" where
  "act cfg net (Whole now req) sv =
     Some (sv\<lparr>current := snd (handle cfg net now req (current sv))\<rparr>)"
| "act cfg net (Begin now authHeader) sv =
     (if authHeader \<noteq> Some (bearer cfg) then Some sv
      else Some (sv\<lparr>current := log_call SelectDuePosts (current sv),
                     in_flight := in_flight sv @ [select_due now (posts (db (current sv)))]\<rparr>))"
| "act cfg net (Iterate k) sv =
     (if k < length (in_flight sv)
      then (case in_flight sv ! k of
              [] \<Rightarrow> None
            | post # rest \<Rightarrow>
                Some (sv\<lparr>current := process_post net post (current sv),
                          in_flight := (in_flight sv)[k := rest]\<rparr>))
      else None)"

fun run_actions :: "config \<Rightarrow> 'w bsky \<Rightarrow> action list \<Rightarrow> 'w server \<Rightarrow> 'w server option" where
  "run_actions cfg net [] sv = Some sv"
| "run_actions cfg net (a # as) sv =
     (case act cfg net a sv of None \<Rightarrow> None | Some sv' \<Rightarrow> run_actions cfg net as sv')"

text \<open>The id and the status of each row of the posts table.\<close>

fun statuses :: "'w server option \<Rightarrow> (nat \<times> post_status) list option" where
  "statuses None = None"
| "statuses (Some sv) = Some (map (\<lambda>r. (post_id r, status r)) (posts (db (current sv))))"

section \<open>The remote store of the client\<close>

text \<open>
  What \<open>fetch\<close> gives \<open>RemoteDB.fetchApi\<close>: a rejection (the transport failed), or a
  response with its \<open>ok\<close> flag, its \<open>statusText\<close> and the outcome of
  \<open>response.json()\<close>, which throws when the body is not JSON.
\<close>

datatype 'a fetched = Rejected thrown | Responded bool string "thrown + 'a"

text \<open>
  \<^verbatim>\<open>
  const response = await fetch(`${this.apiUrl}/api${endpoint}`, options);
  if (!response.ok) { throw new Error(`API Error: ${response.statusText}`); }
  return response.json();
  \<close>
\<close>

definition fetchApi :: "'a fetched \<Rightarrow> thrown + 'a" where
  "fetchApi f =
     (case f of
        Rejected e \<Rightarrow> Inl e
      | Responded ok statusText body \<Rightarrow>
          if \<not> ok then Inl (ErrorObj (''API Error: '' @ statusText)) else body)"

text \<open>
  \<^verbatim>\<open>
  async getCredentials(): Promise<Credentials | null> {
    try { return await this.fetchApi("/credentials"); }
    catch (error: unknown) { console.log(error); return null; }
  }
  \<close>
  \<open>Inl\<close> would be a value thrown to the caller, \<open>Inr None\<close> is \<open>null\<close>.
\<close>

definition getCredentials :: "'a fetched \<Rightarrow> thrown + 'a option" where
  "getCredentials f = (case fetchApi f of Inl err \<Rightarrow> Inr None | Inr creds \<Rightarrow> Inr (Some creds))"

text \<open>
  The response of the server as \<open>fetch\<close> presents it. \<open>res.status(401)\<close> and the 404 of
  a missing route are not \<open>ok\<close>; the 404 page is HTML. \<open>res.json(undefined)\<close>, the
  answer of \<open>GET /api/credentials\<close> on an empty table, sends status 200 with an empty
  body, on which \<open>response.json()\<close> throws a \<open>SyntaxError\<close>.
\<close>

definition over_http :: "response \<Rightarrow> response fetched" where
  "over_http resp =
     (case resp of
        Unauthorized \<Rightarrow> Responded False ''Unauthorized'' (Inr Unauthorized)
      | NotFound \<Rightarrow> Responded False ''Not Found'' (Inl (ErrorObj ''Unexpected token <''))
      | CredRow None \<Rightarrow> Responded True ''OK'' (Inl (ErrorObj ''Unexpected end of JSON input''))
      | _ \<Rightarrow> Responded True ''OK'' (Inr resp))"

text \<open>
  A call of \<open>fetch\<close>: with \<open>transport = Some e\<close> the request does not reach the server
  and \<open>fetch\<close> rejects with \<open>e\<close>; otherwise the server handles it.
\<close>

definition fetch ::
  "thrown option \<Rightarrow> config \<Rightarrow> 'w bsky \<Rightarrow> int \<Rightarrow> request \<Rightarrow> 'w run \<Rightarrow> response fetched \<times> 'w run" where
  "fetch transport cfg net now req st =
     (case transport of
        Some e \<Rightarrow> (Rejected e, st)
      | None \<Rightarrow> (case handle cfg net now req st of (resp, st') \<Rightarrow> (over_http resp, st')))"

text \<open>
  \<open>RemoteDB.createPost\<close> and \<open>RemoteDB.getAllPosts\<close> return what \<open>fetchApi\<close> returns
  for \<open>POST /api/posts\<close> and \<open>GET /api/posts\<close>.
\<close>

definition createPost ::
  "thrown option \<Rightarrow> config \<Rightarrow> 'w bsky \<Rightarrow> int \<Rightarrow> post_body \<Rightarrow> 'w run \<Rightarrow> (thrown + response) \<times> 'w run" where
  "createPost transport cfg net now post st =
     (case fetch transport cfg net now (POST_posts post) st of (f, st') \<Rightarrow> (fetchApi f, st'))"

definition getAllPosts ::
  "thrown option \<Rightarrow> config \<Rightarrow> 'w bsky \<Rightarrow> int \<Rightarrow> 'w run \<Rightarrow> (thrown + response) \<times> 'w run" where
  "getAllPosts transport cfg net now st =
     (case fetch transport cfg net now GET_posts st of (f, st') \<Rightarrow> (fetchApi f, st'))"

section \<open>The payload builder\<close>

record link_card =
  card_uri :: string
  card_title :: string
  card_description :: string
  card_thumb :: "blob_ref option"

record image_entry =
  entry_alt :: string
  entry_image :: "blob_ref option"

datatype embed = External link_card | Images "image_entry list"

record 'f platform_post =
  post_text :: string
  facets :: "'f list"
  createdAt :: string
  embed :: "embed option"

record payload_draft =
  draft_content :: string
  draft_url :: "string option"
  draft_image :: "image_ref option"
  scheduledAt :: int

text \<open>
  The collaborators of the builder: the facet detection of the client library, the
  metadata resolver and the ISO-8601 encoding of an instant.
\<close>

record 'f collaborators =
  detectFacets :: "string \<Rightarrow> 'f list"
  fetchUrlMetadata :: "string \<Rightarrow> cred_row \<Rightarrow> link_card"
  toISOString :: "int \<Rightarrow> string"

text \<open>
  Modelled from the spec: \<open>getPostData\<close> (the Payload Builder, \<open>src/lib/bluesky.ts\<close>)
  is not among the sources, only its tests are. The spec: the builder fails with an
  unauthenticated error when the credentials resolve to null, before any network call;
  it always computes the rich-text segmentation of the content; if \<open>url\<close> is present
  it calls the metadata resolver and embeds the result as a link card, ignoring
  \<open>image\<close>; else if \<open>image\<close> is present it embeds it as an image embed using the
  uploaded blob reference, with the empty string for an absent alt text; else there is
  no embed; \<open>createdAt\<close> is the ISO-8601 encoding of \<open>scheduledAt\<close>.
\<close>

definition getPostData ::
  "'f collaborators \<Rightarrow> cred_row option \<Rightarrow> payload_draft \<Rightarrow> thrown + 'f platform_post" where
  "getPostData env credentials_opt d =
     (case credentials_opt of
        None \<Rightarrow> Inl (ErrorObj ''No credentials set'')
      | Some creds \<Rightarrow>
          Inr \<lparr>post_text = draft_content d,
               facets = detectFacets env (draft_content d),
               createdAt = toISOString env (scheduledAt d),
               embed =
                 (case draft_url d of
                    Some u \<Rightarrow> Some (External (fetchUrlMetadata env u creds))
                  | None \<Rightarrow>
                      (case draft_image d of
                         Some i \<Rightarrow>
                           Some (Images [\<lparr>entry_alt = (case alt i of None \<Rightarrow> [] | Some a \<Rightarrow> a),
                                          entry_image = blobRef i\<rparr>])
                       | None \<Rightarrow> None))\<rparr>)"

section \<open>What a run did\<close>

text \<open>
  The calls \<open>agent.post\<close> of a log (the id of the row being processed and the text
  sent), its calls \<open>agent.login\<close>, and the ids of its \<open>UPDATE\<close> statements.
\<close>

fun publish_calls :: "event list \<Rightarrow> (nat \<times> string) list" where
  "publish_calls [] = []"
| "publish_calls (Publish i t # evs) = (i, t) # publish_calls evs"
| "publish_calls (_ # evs) = publish_calls evs"

fun login_calls :: "event list \<Rightarrow> (string \<times> string) list" where
  "login_calls [] = []"
| "login_calls (Login i p # evs) = (i, p) # login_calls evs"
| "login_calls (_ # evs) = login_calls evs"

fun status_writes :: "event list \<Rightarrow> nat list" where
  "status_writes [] = []"
| "status_writes (UpdatePublished i # evs) = i # status_writes evs"
| "status_writes (UpdateFailed i m # evs) = i # status_writes evs"
| "status_writes (_ # evs) = status_writes evs"

text \<open>
  How a row may differ after the posts with ids in \<open>S\<close> were processed: not at all, or,
  when its id is in \<open>S\<close>, in its status, now \<open>published\<close> or \<open>failed\<close>, and its error;
  the other columns are as they were.
\<close>

definition row_step :: "nat set \<Rightarrow> post_row \<Rightarrow> post_row \<Rightarrow> bool" where
  "row_step S r r' \<longleftrightarrow>
     r' = r \<or>
     (post_id r \<in> S \<and> (status r' = Published \<or> status r' = Failed) \<and>
      post_id r' = post_id r \<and> content r' = content r \<and>
      scheduled_for r' = scheduled_for r \<and> created_at r' = created_at r \<and>
      url r' = url r \<and> image r' = image r)"

text \<open>The primary key of the posts table.\<close>

definition unique_ids :: "store \<Rightarrow> bool" where
  "unique_ids s \<longleftrightarrow> distinct (map post_id (posts s))"

text \<open>
  The row \<open>r'\<close> is the row \<open>r\<close> marked failed with the message of \<open>e\<close>, when \<open>r\<close>
  has the id \<open>i\<close>.
\<close>

definition failed_as :: "nat \<Rightarrow> thrown \<Rightarrow> post_row \<Rightarrow> post_row \<Rightarrow> bool" where
  "failed_as i e r r' \<longleftrightarrow>
     (post_id r = i \<longrightarrow> r' = r\<lparr>status := Failed, error := Some (errorMessage e)\<rparr>)"

text \<open>
  The primary key together with its sequence: the ids are distinct and below the next
  value of the sequence.
\<close>

definition store_inv :: "store \<Rightarrow> bool" where
  "store_inv s \<longleftrightarrow> unique_ids s \<and> (\<forall>r \<in> set (posts s). post_id r < next_post_id s)"

section \<open>Example states\<close>

text \<open>
  A network that accepts every login and every post, one that rejects every login, and
  one that rejects the first post it is sent and accepts the later ones (its state
  counts the posts sent).
\<close>

definition accepting_net :: "unit bsky" where
  "accepting_net = \<lparr>agent_login = (\<lambda>w i p. (None, w)), agent_post = (\<lambda>w t. (None, w))\<rparr>"

definition rejecting_net :: "unit bsky" where
  "rejecting_net =
     \<lparr>agent_login = (\<lambda>w i p. (Some (ErrorObj ''Invalid identifier or password''), w)),
      agent_post = (\<lambda>w t. (None, w))\<rparr>"


definition example_cfg :: config where
  "example_cfg = \<lparr>CRON_SECRET = Some ''s3cret''\<rparr>"

definition row_hello :: post_row where
  "row_hello = \<lparr>post_id = 1, content = ''hello'', scheduled_for = 50, status = Pending,
                 error = None, created_at = 5, url = None, image = None\<rparr>"

definition row_done :: post_row where
  "row_done = \<lparr>post_id = 2, content = ''done'', scheduled_for = 10, status = Published,
                error = None, created_at = 6, url = None, image = None\<rparr>"

definition row_later :: post_row where
  "row_later = \<lparr>post_id = 3, content = ''later'', scheduled_for = 500, status = Pending,
                 error = None, created_at = 7, url = None, image = None\<rparr>"

definition row_again :: post_row where
  "row_again = \<lparr>post_id = 4, content = ''again'', scheduled_for = 60, status = Pending,
                 error = None, created_at = 8, url = None, image = None\<rparr>"

definition alice :: cred_row where
  "alice = \<lparr>cred_id = 1, cred_identifier = ''alice.bsky.social'', cred_password = ''app-password''\<rparr>"

definition example_store :: store where
  "example_store = \<lparr>posts = [row_hello, row_done, row_later, row_again], next_post_id = 5,
                      credentials = [alice], next_cred_id = 2\<rparr>"

definition example_run :: "'w \<Rightarrow> 'w run" where
  "example_run w = \<lparr>db = example_store, world = w, calls = []\<rparr>"

text \<open>The same posts in a store without a credential record.\<close>

definition no_credentials_run :: "unit run" where
  "no_credentials_run = \<lparr>db = example_store\<lparr>credentials := []\<rparr>, world = (), calls = []\<rparr>"

text \<open>The server after \<open>initDB\<close>, and a draft with a link.\<close>

definition fresh_run :: "unit run" where
  "fresh_run = \<lparr>db = init_store, world = (), calls = []\<rparr>"

definition link_draft :: post_body where
  "link_draft = \<lparr>body_content = ''read this'', body_scheduledFor = 100, body_status = Pending,
                  body_error = None, body_url = Some ''https://example.com'', body_image = None\<rparr>"

text \<open>
  The server after the credentials were set at instant 1 and the draft with a link was
  created at instant 5, and the row that the creation stores. A draft with both a link
  and an image, with collaborators that answer as the mocks of the builder's tests do.
\<close>

definition after_setup :: "unit run" where
  "after_setup =
     snd (handle example_cfg accepting_net 5 (POST_posts link_draft)
       (snd (handle example_cfg accepting_net 1
          (POST_credentials ''alice.bsky.social'' ''app-password'') fresh_run)))"

definition created_row :: post_row where
  "created_row = \<lparr>post_id = 1, content = ''read this'', scheduled_for = 100, status = Pending,
                   error = None, created_at = 5, url = None, image = None\<rparr>"

definition example_collaborators :: "nat collaborators" where
  "example_collaborators =
     \<lparr>detectFacets = (\<lambda>t. []),
      fetchUrlMetadata = (\<lambda>u c. \<lparr>card_uri = u, card_title = ''Example'',
                                   card_description = ''Test'', card_thumb = None\<rparr>),
      toISOString = (\<lambda>t. ''2023-01-01T12:00:00.000Z'')\<rparr>"

definition both_draft :: payload_draft where
  "both_draft =
     \<lparr>draft_content = ''Test with both URL and image'',
      draft_url = Some ''https://example.com'',
      draft_image = Some \<lparr>image_url = ''blob:1'', image_type = ''image/jpeg'',
                           alt = Some ''Test image'',
                           blobRef = Some \<lparr>blob_type = ''blob'', blob_link = ''test'',
                                            mimeType = ''image/jpeg'', blob_size = 1024\<rparr>\<rparr>,
      scheduledAt = 1672574400000\<rparr>"

text \<open>
  A network that accepts every login and the first post it is sent, and rejects the
  later posts (its state counts the posts sent). The server after \<open>initDB\<close> with no
  request in flight, the two requests that set the credentials and create the draft
  with a link, and a cron request with the right header at instant 200.
\<close>

definition once_net :: "nat bsky" where
  "once_net =
     \<lparr>agent_login = (\<lambda>w i p. (None, w)),
      agent_post = (\<lambda>w t. (if w = 0 then None else Some (ErrorObj ''Post failed''), w + 1))\<rparr>"

definition fresh_server :: "nat server" where
  "fresh_server = \<lparr>current = \<lparr>db = init_store, world = 0, calls = []\<rparr>, in_flight = []\<rparr>"

definition setup_actions :: "action list" where
  "setup_actions =
     [Whole 1 (POST_credentials ''alice.bsky.social'' ''app-password''),
      Whole 5 (POST_posts link_draft)]"

definition cron_request :: action where
  "cron_request = Begin 200 (Some ''Bearer s3cret'')"

section \<open>Properties of one iteration and of the loop\<close>

lemma publish_calls_append: "publish_calls (xs @ ys) = publish_calls xs @ publish_calls ys"
  by (induction xs rule: publish_calls.induct) simp_all

lemma login_calls_append: "login_calls (xs @ ys) = login_calls xs @ login_calls ys"
  by (induction xs rule: login_calls.induct) simp_all

lemma status_writes_append: "status_writes (xs @ ys) = status_writes xs @ status_writes ys"
  by (induction xs rule: status_writes.induct) simp_all

lemmas unfold_iteration =
  process_post_def try_block_def log_call_def set_posts_def Let_def

lemma process_post_credentials:
  "credentials (db (process_post net p st)) = credentials (db st)"
  by (simp add: unfold_iteration split: list.splits prod.splits option.splits)

lemma process_post_next_post_id:
  "next_post_id (db (process_post net p st)) = next_post_id (db st)"
  by (simp add: unfold_iteration split: list.splits prod.splits option.splits)

lemma process_post_rows:
  "posts (db (process_post net p st)) = update_published (post_id p) (posts (db st)) \<or>
   (\<exists>e. posts (db (process_post net p st)) = update_failed (post_id p) (errorMessage e) (posts (db st)))"
  by (auto simp add: unfold_iteration split: list.splits prod.splits option.splits)

lemma process_post_status_writes:
  "status_writes (calls (process_post net p st)) = status_writes (calls st) @ [post_id p]"
  by (simp add: unfold_iteration status_writes_append split: list.splits prod.splits option.splits)

lemma row_step_refl: "row_step S r r"
  by (simp add: row_step_def)

lemma row_step_trans:
  "row_step S r r' \<Longrightarrow> row_step T r' r'' \<Longrightarrow> row_step (S \<union> T) r r''"
  by (auto simp: row_step_def)

lemma row_step_id: "row_step S r r' \<Longrightarrow> post_id r' = post_id r"
  by (auto simp: row_step_def)

lemma row_step_outside: "row_step S r r' \<Longrightarrow> post_id r \<notin> S \<Longrightarrow> r' = r"
  by (auto simp: row_step_def)

lemma update_published_step: "list_all2 (row_step {i}) rows (update_published i rows)"
  by (simp add: update_published_def list_all2_map2 list.rel_refl_strong row_step_def)

lemma update_failed_step: "list_all2 (row_step {i}) rows (update_failed i m rows)"
  by (simp add: update_failed_def list_all2_map2 list.rel_refl_strong row_step_def)

lemma process_post_step:
  "list_all2 (row_step {post_id p}) (posts (db st)) (posts (db (process_post net p st)))"
  using process_post_rows [of net p st] update_published_step update_failed_step
  by metis

lemma list_all2_row_step_trans:
  assumes "list_all2 (row_step S) xs ys" and "list_all2 (row_step T) ys zs"
  shows "list_all2 (row_step (S \<union> T)) xs zs"
  using assms(1) assms(2)
  by (rule list_all2_trans [rotated]) (rule row_step_trans)

lemma for_each_post_credentials:
  "credentials (db (for_each_post net ps st)) = credentials (db st)"
  by (induction ps arbitrary: st) (simp_all add: process_post_credentials)

lemma for_each_post_next_post_id:
  "next_post_id (db (for_each_post net ps st)) = next_post_id (db st)"
  by (induction ps arbitrary: st) (simp_all add: process_post_next_post_id)

lemma for_each_post_status_writes:
  "status_writes (calls (for_each_post net ps st)) = status_writes (calls st) @ map post_id ps"
  by (induction ps arbitrary: st) (simp_all add: process_post_status_writes)

lemma for_each_post_step:
  "list_all2 (row_step (post_id ` set ps)) (posts (db st)) (posts (db (for_each_post net ps st)))"
proof (induction ps arbitrary: st)
  case Nil
  show ?case by (simp add: list.rel_refl row_step_refl)
next
  case (Cons p ps)
  have "list_all2 (row_step ({post_id p} \<union> post_id ` set ps)) (posts (db st))
          (posts (db (for_each_post net ps (process_post net p st))))"
    by (rule list_all2_row_step_trans [OF process_post_step Cons.IH])
  then show ?case by simp
qed

lemma process_post_publish_calls:
  assumes "credentials (db st) = c # cs"
    and "fst (agent_login net (world st) (cred_identifier c) (cred_password c)) = None"
  shows "publish_calls (calls (process_post net p st)) =
         publish_calls (calls st) @ [(post_id p, content p)]"
  using assms
  by (auto simp add: unfold_iteration publish_calls_append
      split: list.splits prod.splits option.splits)

lemma for_each_post_publish_calls:
  assumes "credentials (db st) = c # cs"
    and "\<forall>w. fst (agent_login net w (cred_identifier c) (cred_password c)) = None"
  shows "publish_calls (calls (for_each_post net ps st)) =
         publish_calls (calls st) @ map (\<lambda>r. (post_id r, content r)) ps"
  using assms
proof (induction ps arbitrary: st)
  case Nil
  show ?case by simp
next
  case (Cons p ps)
  have creds': "credentials (db (process_post net p st)) = c # cs"
    by (simp add: process_post_credentials Cons.prems(1))
  have "publish_calls (calls (process_post net p st)) =
        publish_calls (calls st) @ [(post_id p, content p)]"
    using Cons.prems by (intro process_post_publish_calls) auto
  with Cons.IH [OF creds' Cons.prems(2)] show ?case by simp
qed

lemma not_due_id_outside_batch:
  assumes "unique_ids s" and "r \<in> set (posts s)" and "\<not> is_due now r"
  shows "post_id r \<notin> post_id ` set (select_due now (posts s))"
proof
  assume "post_id r \<in> post_id ` set (select_due now (posts s))"
  then obtain r2 where r2: "r2 \<in> set (posts s)" "is_due now r2" "post_id r2 = post_id r"
    by (auto simp: select_due_def)
  from assms(1) have "inj_on post_id (set (posts s))"
    by (simp add: unique_ids_def distinct_map)
  with r2 assms(2) have "r2 = r" by (auto dest: inj_onD)
  with r2(2) assms(3) show False by simp
qed

lemma check_posts_step:
  "list_all2 (row_step (post_id ` set (select_due now (posts (db st)))))
     (posts (db st)) (posts (db (check_posts net now st)))"
  using for_each_post_step [where net = net and ps = "select_due now (posts (db st))"
      and st = "log_call SelectDuePosts st"]
  by (simp add: check_posts_def log_call_def)

lemma check_posts_status_writes:
  "calls st = [] \<Longrightarrow>
   status_writes (calls (check_posts net now st)) = map post_id (select_due now (posts (db st)))"
  by (simp add: check_posts_def for_each_post_status_writes log_call_def)

lemma not_due_cases:
  "\<not> is_due now r \<longleftrightarrow> status r = Published \<or> status r = Failed \<or> now < scheduled_for r"
  by (cases "status r") (auto simp: is_due_def)

lemma check_posts_not_due_unchanged:
  assumes "unique_ids (db st)" and "k < length (posts (db st))"
    and "\<not> is_due now (posts (db st) ! k)"
  shows "posts (db (check_posts net now st)) ! k = posts (db st) ! k"
proof -
  have "row_step (post_id ` set (select_due now (posts (db st))))
          (posts (db st) ! k) (posts (db (check_posts net now st)) ! k)"
    using check_posts_step [where now = now and st = st and net = net] assms(2) by (rule list_all2_nthD)
  moreover have "post_id (posts (db st) ! k) \<notin> post_id ` set (select_due now (posts (db st)))"
    using assms by (intro not_due_id_outside_batch) auto
  ultimately show ?thesis by (rule row_step_outside)
qed

section \<open>The run loop publishes each due post once\<close>

text \<open>
  C1. In a run of the cron run loop on a store whose credential record is present and
  accepted by the login call, exactly one publish call is made for each post that is
  pending and scheduled at or before the instant of the selection, in selection order,
  and no two of them are for the same id; a post that is published or failed, or that
  is scheduled in the future, keeps its record, and no \<open>UPDATE\<close> statement and no
  publish call of the run concerns its id.
\<close>

theorem check_posts_publishes_each_due_post_once:
  assumes "unique_ids (db st)"
    and "credentials (db st) = c # cs"
    and "\<forall>w. fst (agent_login net w (cred_identifier c) (cred_password c)) = None"
    and "calls st = []"
  shows "publish_calls (calls (check_posts net now st)) =
           map (\<lambda>r. (post_id r, content r)) (select_due now (posts (db st))) \<and>
         distinct (map post_id (select_due now (posts (db st)))) \<and>
         length (posts (db (check_posts net now st))) = length (posts (db st)) \<and>
         (\<forall>k < length (posts (db st)).
            status (posts (db st) ! k) = Published \<or> status (posts (db st) ! k) = Failed \<or>
            now < scheduled_for (posts (db st) ! k) \<longrightarrow>
            posts (db (check_posts net now st)) ! k = posts (db st) ! k \<and>
            post_id (posts (db st) ! k) \<notin> set (status_writes (calls (check_posts net now st))) \<and>
            post_id (posts (db st) ! k) \<notin> fst ` set (publish_calls (calls (check_posts net now st))))"
proof (intro conjI allI impI)
  show pub: "publish_calls (calls (check_posts net now st)) =
           map (\<lambda>r. (post_id r, content r)) (select_due now (posts (db st)))"
    using for_each_post_publish_calls [where st = "log_call SelectDuePosts st" and c = c and cs = cs and net = net]
      assms(2,3,4)
    by (simp add: check_posts_def log_call_def)
  show "distinct (map post_id (select_due now (posts (db st))))"
    using assms(1) by (simp add: unique_ids_def select_due_def distinct_map_filter)
  show "length (posts (db (check_posts net now st))) = length (posts (db st))"
    using check_posts_step [where now = now and st = st and net = net] by (simp add: list_all2_lengthD)
  fix k
  assume k: "k < length (posts (db st))"
    and nd: "status (posts (db st) ! k) = Published \<or> status (posts (db st) ! k) = Failed \<or>
            now < scheduled_for (posts (db st) ! k)"
  from nd have nd': "\<not> is_due now (posts (db st) ! k)" by (simp add: not_due_cases)
  show "posts (db (check_posts net now st)) ! k = posts (db st) ! k"
    using assms(1) k nd' by (rule check_posts_not_due_unchanged)
  have out: "post_id (posts (db st) ! k) \<notin> post_id ` set (select_due now (posts (db st)))"
    using assms(1) k nd' by (intro not_due_id_outside_batch) auto
  show "post_id (posts (db st) ! k) \<notin> set (status_writes (calls (check_posts net now st)))"
    using out by (simp add: check_posts_status_writes assms(4))
  show "post_id (posts (db st) ! k) \<notin> fst ` set (publish_calls (calls (check_posts net now st)))"
    using out by (simp add: pub image_image)
qed

text \<open>
  On the example store at instant 100 the posts 1 and 4 are due; post 2 is published
  and post 3 is scheduled for later.
\<close>

lemmas example_defs =
  example_run_def example_store_def row_hello_def row_done_def row_later_def row_again_def
  alice_def

theorem check_posts_publishes_each_due_post_once_witness:
  "unique_ids (db (example_run ())) \<and>
   credentials (db (example_run ())) = alice # [] \<and>
   (\<forall>w. fst (agent_login accepting_net w (cred_identifier alice) (cred_password alice)) = None) \<and>
   calls (example_run ()) = [] \<and>
   publish_calls (calls (check_posts accepting_net 100 (example_run ()))) =
     [(1, ''hello''), (4, ''again'')] \<and>
   posts (db (check_posts accepting_net 100 (example_run ()))) ! 1 = row_done \<and>
   posts (db (check_posts accepting_net 100 (example_run ()))) ! 2 = row_later"
proof -
  have h1: "unique_ids (db (example_run ()))"
    by (simp add: unique_ids_def example_defs)
  have h2: "credentials (db (example_run ())) = alice # []"
    by (simp add: example_defs)
  have h3: "\<forall>w. fst (agent_login accepting_net w (cred_identifier alice) (cred_password alice)) = None"
    by (simp add: accepting_net_def)
  have h4: "calls (example_run ()) = []"
    by (simp add: example_defs)
  have due: "select_due 100 (posts (db (example_run ()))) = [row_hello, row_again]"
    by (simp add: select_due_def is_due_def example_defs)
  have len: "length (posts (db (example_run ()))) = 4"
    by (simp add: example_defs)
  have r1: "posts (db (example_run ())) ! 1 = row_done" "posts (db (example_run ())) ! 2 = row_later"
    by (simp_all add: example_defs)
  have s1: "status row_done = Published" "now < scheduled_for row_later \<longleftrightarrow> now < 500" for now
    by (simp_all add: row_done_def row_later_def)
  note main = check_posts_publishes_each_due_post_once [OF h1 h2 h3 h4, of 100]
  from main have "publish_calls (calls (check_posts accepting_net 100 (example_run ()))) =
      [(1, ''hello''), (4, ''again'')]"
    by (simp add: due row_hello_def row_again_def)
  moreover from main have frame:
    "k < length (posts (db (example_run ()))) \<Longrightarrow>
     status (posts (db (example_run ())) ! k) = Published \<or>
     status (posts (db (example_run ())) ! k) = Failed \<or>
     100 < scheduled_for (posts (db (example_run ())) ! k) \<Longrightarrow>
     posts (db (check_posts accepting_net 100 (example_run ()))) ! k =
     posts (db (example_run ())) ! k" for k
    by blast
  have "posts (db (check_posts accepting_net 100 (example_run ()))) ! 1 = row_done"
    using frame [of 1] r1(1) by (simp add: len s1)
  moreover have "posts (db (check_posts accepting_net 100 (example_run ()))) ! 2 = row_later"
    using frame [of 2] r1(2) by (simp add: len s1)
  ultimately show ?thesis using h1 h2 h3 h4 by blast
qed

lemma list_all2_pick:
  assumes "list_all2 P xs ys" and "x \<in> set xs"
  shows "\<exists>y \<in> set ys. P x y"
  using assms by (induction rule: list_all2_induct) auto

lemma process_post_calls_mono: "set (calls st) \<subseteq> set (calls (process_post net p st))"
  by (auto simp add: unfold_iteration split: list.splits prod.splits option.splits)

lemma for_each_post_calls_mono: "set (calls st) \<subseteq> set (calls (for_each_post net ps st))"
proof (induction ps arbitrary: st)
  case Nil
  show ?case by simp
next
  case (Cons p ps)
  from process_post_calls_mono Cons.IH show ?case
    by (metis for_each_post.simps(2) subset_trans)
qed

lemma process_post_caught:
  assumes "Caught i e \<in> set (calls (process_post net p st))"
    and "Caught i e \<notin> set (calls st)"
  shows "i = post_id p \<and>
         posts (db (process_post net p st)) =
           update_failed (post_id p) (errorMessage e) (posts (db st))"
  using assms
  by (auto simp add: unfold_iteration split: list.splits prod.splits option.splits)

lemma update_failed_failed_as:
  "list_all2 (\<lambda>r r'. r' = (if post_id r = i then r\<lparr>status := Failed, error := Some m\<rparr> else r))
     rows (update_failed i m rows)"
  by (simp add: update_failed_def list_all2_map2 list.rel_refl)

lemma for_each_post_caught:
  assumes "distinct (map post_id ps)"
    and "Caught i e \<in> set (calls (for_each_post net ps st))"
    and "Caught i e \<notin> set (calls st)"
  shows "i \<in> post_id ` set ps \<and>
         list_all2 (failed_as i e) (posts (db st)) (posts (db (for_each_post net ps st)))"
  using assms
proof (induction ps arbitrary: st)
  case Nil
  then show ?case by simp
next
  case (Cons p ps)
  let ?st1 = "process_post net p st"
  have dist: "distinct (map post_id ps)" and fresh: "post_id p \<notin> post_id ` set ps"
    using Cons.prems(1) by auto
  show ?case
  proof (cases "Caught i e \<in> set (calls ?st1)")
    case True
    with Cons.prems(3) have i: "i = post_id p"
      and rows: "posts (db ?st1) = update_failed i (errorMessage e) (posts (db st))"
      using process_post_caught [of i e net p st] by auto
    have first: "list_all2
        (\<lambda>r r'. r' = (if post_id r = i then r\<lparr>status := Failed, error := Some (errorMessage e)\<rparr> else r))
        (posts (db st)) (posts (db ?st1))"
      unfolding rows by (rule update_failed_failed_as)
    have rest: "list_all2 (row_step (post_id ` set ps)) (posts (db ?st1))
        (posts (db (for_each_post net ps ?st1)))"
      by (rule for_each_post_step)
    have "list_all2 (failed_as i e) (posts (db st)) (posts (db (for_each_post net ps ?st1)))"
      using first rest
    proof (rule list_all2_trans [rotated])
      fix a b c
      assume ab: "b = (if post_id a = i then a\<lparr>status := Failed, error := Some (errorMessage e)\<rparr> else a)"
        and bc: "row_step (post_id ` set ps) b c"
      show "failed_as i e a c"
      proof (cases "post_id a = i")
        case True
        with ab have "post_id b = i" by simp
        with fresh i have "post_id b \<notin> post_id ` set ps" by simp
        with bc have "c = b" by (rule row_step_outside)
        with ab True show ?thesis by (simp add: failed_as_def)
      next
        case False
        then show ?thesis by (simp add: failed_as_def)
      qed
    qed
    with i show ?thesis by simp
  next
    case False
    from Cons.prems(2) have "Caught i e \<in> set (calls (for_each_post net ps ?st1))" by simp
    from Cons.IH [OF dist this False]
    have mem: "i \<in> post_id ` set ps"
      and rest: "list_all2 (failed_as i e) (posts (db ?st1)) (posts (db (for_each_post net ps ?st1)))"
      by auto
    from mem fresh have ne: "i \<noteq> post_id p" by blast
    have first: "list_all2 (row_step {post_id p}) (posts (db st)) (posts (db ?st1))"
      by (rule process_post_step)
    have "list_all2 (failed_as i e) (posts (db st)) (posts (db (for_each_post net ps ?st1)))"
      using first rest
    proof (rule list_all2_trans [rotated])
      fix a b c
      assume ab: "row_step {post_id p} a b" and bc: "failed_as i e b c"
      show "failed_as i e a c"
      proof (cases "post_id a = i")
        case True
        with ne have "post_id a \<notin> {post_id p}" by simp
        with ab have "b = a" by (rule row_step_outside)
        with bc show ?thesis by simp
      next
        case False
        then show ?thesis by (simp add: failed_as_def)
      qed
    qed
    with mem show ?thesis by simp
  qed
qed

lemma due_row_of_id:
  assumes "i \<in> post_id ` set (select_due now (posts s))"
  shows "\<exists>r \<in> set (posts s). post_id r = i \<and> is_due now r"
  using assms by (auto simp: select_due_def)

lemma select_due_distinct:
  "unique_ids s \<Longrightarrow> distinct (map post_id (select_due now (posts s)))"
  by (simp add: unique_ids_def select_due_def distinct_map_filter)

lemma check_posts_caught:
  assumes "unique_ids (db st)" and "calls st = []"
    and "Caught i e \<in> set (calls (check_posts net now st))"
  shows "\<exists>r \<in> set (posts (db st)). post_id r = i \<and> is_due now r \<and>
           r\<lparr>status := Failed, error := Some (errorMessage e)\<rparr>
             \<in> set (posts (db (check_posts net now st)))"
proof -
  let ?st0 = "log_call SelectDuePosts st"
  let ?ps = "select_due now (posts (db st))"
  have a: "distinct (map post_id ?ps)" using assms(1) by (rule select_due_distinct)
  have b: "Caught i e \<in> set (calls (for_each_post net ?ps ?st0))"
    using assms(3) by (simp add: check_posts_def)
  have c: "Caught i e \<notin> set (calls ?st0)"
    using assms(2) by (simp add: log_call_def)
  from for_each_post_caught [OF a b c]
  have mem: "i \<in> post_id ` set ?ps"
    and rows: "list_all2 (failed_as i e) (posts (db st)) (posts (db (check_posts net now st)))"
    by (simp_all add: check_posts_def log_call_def)
  from due_row_of_id [OF mem] obtain r where r: "r \<in> set (posts (db st))" "post_id r = i" "is_due now r"
    by blast
  from list_all2_pick [OF rows r(1)] obtain r' where
    "r' \<in> set (posts (db (check_posts net now st)))" "failed_as i e r r'" by blast
  with r show ?thesis by (auto simp: failed_as_def)
qed

section \<open>A failing post is marked failed and the loop goes on\<close>

lemma process_post_catches:
  "fst (try_block net p st) = Some e \<Longrightarrow> Caught (post_id p) e \<in> set (calls (process_post net p st))"
  by (auto simp add: process_post_def log_call_def set_posts_def split: prod.splits option.splits)


lemmas run_defs =
  check_posts_def select_due_def is_due_def process_post_def try_block_def log_call_def
  set_posts_def update_published_def update_failed_def errorMessage_def



lemma process_post_login_rejected:
  assumes "credentials (db st) = c # cs"
    and "fst (agent_login net (world st) (cred_identifier c) (cred_password c)) \<noteq> None"
  shows "publish_calls (calls (process_post net p st)) = publish_calls (calls st)"
    and "login_calls (calls (process_post net p st)) =
         login_calls (calls st) @ [(cred_identifier c, cred_password c)]"
    and "\<exists>e. Caught (post_id p) e \<in> set (calls (process_post net p st)) \<and>
             (\<exists>w. fst (agent_login net w (cred_identifier c) (cred_password c)) = Some e)"
  using assms
  by (auto simp add: unfold_iteration publish_calls_append login_calls_append
      split: list.splits prod.splits option.splits intro: exI [of _ "world st"])

lemma for_each_post_login_rejected:
  assumes "credentials (db st) = c # cs"
    and "\<forall>w. fst (agent_login net w (cred_identifier c) (cred_password c)) \<noteq> None"
  shows "publish_calls (calls (for_each_post net ps st)) = publish_calls (calls st) \<and>
         login_calls (calls (for_each_post net ps st)) =
           login_calls (calls st) @ map (\<lambda>r. (cred_identifier c, cred_password c)) ps \<and>
         (\<forall>p \<in> set ps. \<exists>e. Caught (post_id p) e \<in> set (calls (for_each_post net ps st)) \<and>
             (\<exists>w. fst (agent_login net w (cred_identifier c) (cred_password c)) = Some e))"
  using assms
proof (induction ps arbitrary: st)
  case Nil
  show ?case by simp
next
  case (Cons p ps)
  let ?st1 = "process_post net p st"
  have creds': "credentials (db ?st1) = c # cs"
    by (simp add: process_post_credentials Cons.prems(1))
  have rej: "fst (agent_login net (world st) (cred_identifier c) (cred_password c)) \<noteq> None"
    using Cons.prems(2) by simp
  note step = process_post_login_rejected [OF Cons.prems(1) rej, of p]
  note ih = Cons.IH [OF creds' Cons.prems(2)]
  from step(3) obtain e where e: "Caught (post_id p) e \<in> set (calls ?st1)"
    "\<exists>w. fst (agent_login net w (cred_identifier c) (cred_password c)) = Some e"
    by blast
  from e(1) for_each_post_calls_mono [of ?st1 net ps]
  have "Caught (post_id p) e \<in> set (calls (for_each_post net ps ?st1))" by blast
  with e(2) ih step(1,2) show ?case by auto
qed

section \<open>A rejected login\<close>

text \<open>
  C4, as the code has it. When the login call rejects the stored credentials each time
  it is made, no publish call is made for any post of the batch, but the run is not
  aborted: login is attempted once for each due post, each due post's record is
  updated to status \<open>failed\<close> with the message of a value that the login call threw,
  and the records of the posts that are not due are not modified.
\<close>

theorem check_posts_rejected_login_fails_each_due_post:
  assumes "unique_ids (db st)"
    and "credentials (db st) = c # cs"
    and "\<forall>w. fst (agent_login net w (cred_identifier c) (cred_password c)) \<noteq> None"
    and "calls st = []"
  shows "publish_calls (calls (check_posts net now st)) = [] \<and>
         login_calls (calls (check_posts net now st)) =
           map (\<lambda>r. (cred_identifier c, cred_password c)) (select_due now (posts (db st))) \<and>
         (\<forall>r \<in> set (select_due now (posts (db st))).
            \<exists>e. (\<exists>w. fst (agent_login net w (cred_identifier c) (cred_password c)) = Some e) \<and>
                r\<lparr>status := Failed, error := Some (errorMessage e)\<rparr>
                  \<in> set (posts (db (check_posts net now st)))) \<and>
         (\<forall>k < length (posts (db st)).
            \<not> is_due now (posts (db st) ! k) \<longrightarrow>
            posts (db (check_posts net now st)) ! k = posts (db st) ! k)"
proof (intro conjI ballI allI impI)
  let ?st0 = "log_call SelectDuePosts st"
  have creds0: "credentials (db ?st0) = c # cs"
    using assms(2) by (simp add: log_call_def)
  note loop = for_each_post_login_rejected [OF creds0 assms(3), of "select_due now (posts (db st))"]
  show "publish_calls (calls (check_posts net now st)) = []"
    using loop assms(4) by (simp add: check_posts_def log_call_def)
  show "login_calls (calls (check_posts net now st)) =
           map (\<lambda>r. (cred_identifier c, cred_password c)) (select_due now (posts (db st)))"
    using loop assms(4) by (simp add: check_posts_def log_call_def)
  show "\<exists>e. (\<exists>w. fst (agent_login net w (cred_identifier c) (cred_password c)) = Some e) \<and>
            r\<lparr>status := Failed, error := Some (errorMessage e)\<rparr>
              \<in> set (posts (db (check_posts net now st)))"
    if r: "r \<in> set (select_due now (posts (db st)))" for r
  proof -
    from loop r obtain e where
      e: "Caught (post_id r) e \<in> set (calls (check_posts net now st))"
        "\<exists>w. fst (agent_login net w (cred_identifier c) (cred_password c)) = Some e"
      unfolding check_posts_def by blast
    from check_posts_caught [OF assms(1) assms(4) e(1)] obtain r2 where
      r2: "r2 \<in> set (posts (db st))" "post_id r2 = post_id r"
        "r2\<lparr>status := Failed, error := Some (errorMessage e)\<rparr>
           \<in> set (posts (db (check_posts net now st)))"
      by blast
    from assms(1) have "inj_on post_id (set (posts (db st)))"
      by (simp add: unique_ids_def distinct_map)
    moreover from r have "r \<in> set (posts (db st))" by (simp add: select_due_def)
    ultimately have "r2 = r" using r2(1,2) by (auto dest: inj_onD)
    with r2(3) e(2) show ?thesis by blast
  qed
  show "posts (db (check_posts net now st)) ! k = posts (db st) ! k"
    if "k < length (posts (db st))" "\<not> is_due now (posts (db st) ! k)" for k
    using assms(1) that by (rule check_posts_not_due_unchanged)
qed

text \<open>
  On the example store, with a network that rejects every login, the run at instant 100
  logs in for each of the two due posts and marks both failed: the post records are
  modified and the run is not aborted at the first rejection.
\<close>

theorem check_posts_rejected_login_counterexample:
  "credentials (db (example_run ())) = [alice] \<and>
   fst (agent_login rejecting_net () (cred_identifier alice) (cred_password alice)) =
     Some (ErrorObj ''Invalid identifier or password'') \<and>
   select_due 100 (posts (db (example_run ()))) = [row_hello, row_again] \<and>
   posts (db (check_posts rejecting_net 100 (example_run ()))) \<noteq> posts (db (example_run ())) \<and>
   posts (db (check_posts rejecting_net 100 (example_run ()))) =
     [row_hello\<lparr>status := Failed, error := Some ''Invalid identifier or password''\<rparr>,
      row_done, row_later,
      row_again\<lparr>status := Failed, error := Some ''Invalid identifier or password''\<rparr>] \<and>
   login_calls (calls (check_posts rejecting_net 100 (example_run ()))) =
     [(''alice.bsky.social'', ''app-password''), (''alice.bsky.social'', ''app-password'')]"
  by (simp add: rejecting_net_def example_defs run_defs)

theorem check_posts_rejected_login_fails_each_due_post_witness:
  "unique_ids (db (example_run ())) \<and>
   credentials (db (example_run ())) = alice # [] \<and>
   (\<forall>w. fst (agent_login rejecting_net w (cred_identifier alice) (cred_password alice)) \<noteq> None) \<and>
   calls (example_run ()) = [] \<and>
   publish_calls (calls (check_posts rejecting_net 100 (example_run ()))) = [] \<and>
   login_calls (calls (check_posts rejecting_net 100 (example_run ()))) =
     [(''alice.bsky.social'', ''app-password''), (''alice.bsky.social'', ''app-password'')] \<and>
   row_hello\<lparr>status := Failed, error := Some ''Invalid identifier or password''\<rparr>
     \<in> set (posts (db (check_posts rejecting_net 100 (example_run ()))))"
proof -
  have h1: "unique_ids (db (example_run ()))"
    by (simp add: unique_ids_def example_defs)
  have h2: "credentials (db (example_run ())) = alice # []"
    by (simp add: example_defs)
  have h3: "\<forall>w. fst (agent_login rejecting_net w (cred_identifier alice) (cred_password alice)) \<noteq> None"
    by (simp add: rejecting_net_def)
  have h4: "calls (example_run ()) = []"
    by (simp add: example_defs)
  have due: "select_due 100 (posts (db (example_run ()))) = [row_hello, row_again]"
    by (simp add: select_due_def is_due_def example_defs)
  note main = check_posts_rejected_login_fails_each_due_post [OF h1 h2 h3 h4, of 100]
  from main have "publish_calls (calls (check_posts rejecting_net 100 (example_run ()))) = []"
    by simp
  moreover from main have "login_calls (calls (check_posts rejecting_net 100 (example_run ()))) =
     [(''alice.bsky.social'', ''app-password''), (''alice.bsky.social'', ''app-password'')]"
    by (simp add: due alice_def)
  moreover from main have "row_hello\<lparr>status := Failed, error := Some ''Invalid identifier or password''\<rparr>
     \<in> set (posts (db (check_posts rejecting_net 100 (example_run ()))))"
    by (auto simp: due rejecting_net_def errorMessage_def)
  ultimately show ?thesis using h1 h2 h3 h4 by blast
qed

section \<open>The trigger endpoint\<close>

text \<open>
  C5. With a shared secret configured, a request to the cron endpoint whose
  Authorization header is missing or is not \<open>Bearer\<close>, a space and the secret is
  answered 401 and leaves the whole state as it was: no query is issued and no row is
  read or written. A request with the matching header runs the loop and is answered
  with the success indicator, and the run has issued a status update for every post of
  the batch.
\<close>

theorem cron_check_posts_authorization:
  "(authHeader \<noteq> Some (''Bearer '' @ secret) \<longrightarrow>
      cron_check_posts \<lparr>CRON_SECRET = Some secret\<rparr> net now authHeader st = (Unauthorized, st)) \<and>
   (authHeader = Some (''Bearer '' @ secret) \<longrightarrow> calls st = [] \<longrightarrow>
      cron_check_posts \<lparr>CRON_SECRET = Some secret\<rparr> net now authHeader st =
        (Success, check_posts net now st) \<and>
      status_writes (calls (check_posts net now st)) =
        map post_id (select_due now (posts (db st))))"
  by (simp add: cron_check_posts_def bearer_def check_posts_status_writes)

theorem cron_check_posts_authorization_witness:
  "None \<noteq> Some (''Bearer '' @ ''s3cret'') \<and>
   Some ''Bearer guess'' \<noteq> Some (''Bearer '' @ ''s3cret'') \<and>
   calls (example_run ()) = [] \<and>
   cron_check_posts example_cfg accepting_net 100 None (example_run ()) =
     (Unauthorized, example_run ()) \<and>
   cron_check_posts example_cfg accepting_net 100 (Some ''Bearer guess'') (example_run ()) =
     (Unauthorized, example_run ()) \<and>
   fst (cron_check_posts example_cfg accepting_net 100 (Some ''Bearer s3cret'') (example_run ())) =
     Success \<and>
   status_writes (calls (snd (cron_check_posts example_cfg accepting_net 100
     (Some ''Bearer s3cret'') (example_run ())))) = [1, 4]"
proof -
  have h: "calls (example_run ()) = []" by (simp add: example_defs)
  have due: "select_due 100 (posts (db (example_run ()))) = [row_hello, row_again]"
    by (simp add: select_due_def is_due_def example_defs)
  have ids: "post_id row_hello = 1" "post_id row_again = 4"
    by (simp_all add: row_hello_def row_again_def)
  have cfg: "example_cfg = \<lparr>CRON_SECRET = Some ''s3cret''\<rparr>" by (simp add: example_cfg_def)
  show ?thesis
    using cron_check_posts_authorization [of None "''s3cret''" accepting_net 100 "example_run ()"]
      cron_check_posts_authorization [of "Some ''Bearer guess''" "''s3cret''" accepting_net 100 "example_run ()"]
      cron_check_posts_authorization [of "Some ''Bearer s3cret''" "''s3cret''" accepting_net 100 "example_run ()"]
    by (simp add: h due ids cfg)
qed

lemma row_step_list_ids:
  "list_all2 (row_step S) xs ys \<Longrightarrow> map post_id ys = map post_id xs"
  by (induction rule: list_all2_induct) (simp_all add: row_step_id)

lemma check_posts_ids:
  "map post_id (posts (db (check_posts net now st))) = map post_id (posts (db st))"
  using check_posts_step by (rule row_step_list_ids)

lemma check_posts_next_post_id:
  "next_post_id (db (check_posts net now st)) = next_post_id (db st)"
  by (simp add: check_posts_def for_each_post_next_post_id log_call_def)

lemma store_inv_ids:
  "store_inv s \<longleftrightarrow>
     distinct (map post_id (posts s)) \<and> (\<forall>i \<in> set (map post_id (posts s)). i < next_post_id s)"
  by (simp add: store_inv_def unique_ids_def)

lemma check_posts_inv: "store_inv (db st) \<Longrightarrow> store_inv (db (check_posts net now st))"
  unfolding store_inv_ids check_posts_ids check_posts_next_post_id .

lemma handle_inv:
  assumes "store_inv (db st)" and "handle cfg net now req st = (resp, st')"
  shows "store_inv (db st')"
proof (cases req)
  case (POST_posts body)
  with assms show ?thesis
    by (fastforce simp: handle_def insert_post_def Let_def store_inv_def unique_ids_def
        intro: less_SucI)
next
  case (DELETE_posts i)
  with assms show ?thesis
    by (auto simp: handle_def delete_post_def store_inv_def unique_ids_def distinct_map_filter)
next
  case (POST_cron_check_posts h)
  with assms show ?thesis
    by (auto simp: handle_def cron_check_posts_def check_posts_inv split: if_splits)
next
  case (POST_credentials i p)
  with assms show ?thesis
    by (auto simp: handle_def set_credentials_def insert_credentials_def delete_credentials_def
        store_inv_def unique_ids_def)
next
  case DELETE_credentials
  with assms show ?thesis
    by (auto simp: handle_def delete_credentials_def store_inv_def unique_ids_def)
qed (use assms in \<open>auto simp: handle_def\<close>)

lemma reachable_inv: "reachable_serially cfg net st \<Longrightarrow> store_inv (db st)"
proof (induction rule: reachable_serially.induct)
  case (start st)
  then show ?case by (simp add: store_inv_def unique_ids_def init_store_def)
next
  case (request st now req resp st')
  then show ?case by (blast intro: handle_inv)
qed

lemma same_id_same_row:
  assumes "unique_ids s" and "r \<in> set (posts s)" and "r' \<in> set (posts s)"
    and "post_id r' = post_id r"
  shows "r' = r"
proof -
  from assms(1) have "inj_on post_id (set (posts s))"
    by (simp add: unique_ids_def distinct_map)
  with assms(2,3,4) show ?thesis by (auto dest: inj_onD)
qed

lemma check_posts_transition:
  assumes "unique_ids (db st)" and "r \<in> set (posts (db st))"
    and "r' \<in> set (posts (db (check_posts net now st)))" and "post_id r' = post_id r"
  shows "status r' = status r \<or>
         (status r = Pending \<and> (status r' = Published \<or> status r' = Failed))"
proof -
  let ?S = "post_id ` set (select_due now (posts (db st)))"
  have "list_all2 (\<lambda>b a. row_step ?S a b) (posts (db (check_posts net now st))) (posts (db st))"
    using check_posts_step [where now = now and st = st and net = net]
    by (simp add: list_all2_conv_all_nth)
  from list_all2_pick [OF this assms(3)] obtain r0 where
    r0: "r0 \<in> set (posts (db st))" "row_step ?S r0 r'" by blast
  from r0(2) have "post_id r' = post_id r0" by (rule row_step_id)
  with assms(4) have "post_id r0 = post_id r" by simp
  with assms(1,2) r0(1) have "r0 = r" by (intro same_id_same_row) auto
  with r0(2) have step: "row_step ?S r r'" by simp
  show ?thesis
  proof (cases "is_due now r")
    case True
    then have "status r = Pending" by (simp add: is_due_def)
    with step show ?thesis by (auto simp: row_step_def)
  next
    case False
    with assms(1,2) have "post_id r \<notin> ?S" by (intro not_due_id_outside_batch)
    with step have "r' = r" by (rule row_step_outside)
    then show ?thesis by simp
  qed
qed

section \<open>Published and failed are terminal between requests handled one at a time\<close>

text \<open>
  C8, as the code has it. In every state that the server reaches by handling its
  requests one at a time, and for every request that it then handles alone, a post that
  is still in the table afterwards has the status it had before, or it was pending and
  is now published or failed; in particular a published or failed post keeps its
  status.
\<close>

theorem status_transitions_only_from_pending:
  assumes "reachable_serially cfg net st"
    and "handle cfg net now req st = (resp, st')"
    and "r \<in> set (posts (db st))"
    and "r' \<in> set (posts (db st'))"
    and "post_id r' = post_id r"
  shows "(status r' = status r \<or>
          (status r = Pending \<and> (status r' = Published \<or> status r' = Failed))) \<and>
         (status r = Published \<or> status r = Failed \<longrightarrow> status r' = status r)"
proof -
  from assms(1) have inv: "store_inv (db st)" by (rule reachable_inv)
  then have uniq: "unique_ids (db st)" by (simp add: store_inv_def)
  have main: "status r' = status r \<or>
          (status r = Pending \<and> (status r' = Published \<or> status r' = Failed))"
  proof (cases req)
    case (POST_posts body)
    with assms(2) have posts': "posts (db st') = posts (db st) @
        [\<lparr>post_id = next_post_id (db st), content = body_content body,
          scheduled_for = body_scheduledFor body, status = Pending, error = None,
          created_at = now, url = None, image = body_image body\<rparr>]"
      by (auto simp: handle_def insert_post_def Let_def)
    from inv assms(3) have "post_id r < next_post_id (db st)" by (simp add: store_inv_def)
    with assms(4,5) posts' have "r' \<in> set (posts (db st))" by auto
    with uniq assms(3,5) have "r' = r" by (intro same_id_same_row) auto
    then show ?thesis by simp
  next
    case (DELETE_posts i)
    with assms(2,4) have "r' \<in> set (posts (db st))"
      by (auto simp: handle_def delete_post_def)
    with uniq assms(3,5) have "r' = r" by (intro same_id_same_row) auto
    then show ?thesis by simp
  next
    case (POST_cron_check_posts h)
    show ?thesis
    proof (cases "h = Some (bearer cfg)")
      case True
      with POST_cron_check_posts assms(2) have "st' = check_posts net now st"
        by (auto simp: handle_def cron_check_posts_def)
      with assms(4) have "r' \<in> set (posts (db (check_posts net now st)))" by simp
      with uniq assms(3) show ?thesis using assms(5) by (rule check_posts_transition)
    next
      case False
      with POST_cron_check_posts assms(2) have "st' = st"
        by (auto simp: handle_def cron_check_posts_def)
      with uniq assms(3,4,5) have "r' = r" by (intro same_id_same_row) auto
      then show ?thesis by simp
    qed
  next
    case GET_posts_pending
    with assms(2) have "st' = st" by (auto simp: handle_def)
    with uniq assms(3,4,5) have "r' = r" by (intro same_id_same_row) auto
    then show ?thesis by simp
  next
    case GET_posts
    with assms(2) have "st' = st" by (auto simp: handle_def)
    with uniq assms(3,4,5) have "r' = r" by (intro same_id_same_row) auto
    then show ?thesis by simp
  next
    case GET_credentials
    with assms(2) have "st' = st" by (auto simp: handle_def)
    with uniq assms(3,4,5) have "r' = r" by (intro same_id_same_row) auto
    then show ?thesis by simp
  next
    case (POST_credentials i p)
    with assms(2) have "posts (db st') = posts (db st)"
      by (auto simp: handle_def set_credentials_def insert_credentials_def delete_credentials_def)
    with uniq assms(3,4,5) have "r' = r" by (intro same_id_same_row) auto
    then show ?thesis by simp
  next
    case DELETE_credentials
    with assms(2) have "posts (db st') = posts (db st)"
      by (auto simp: handle_def delete_credentials_def)
    with uniq assms(3,4,5) have "r' = r" by (intro same_id_same_row) auto
    then show ?thesis by simp
  next
    case (PATCH_posts i)
    with assms(2) have "st' = st" by (auto simp: handle_def)
    with uniq assms(3,4,5) have "r' = r" by (intro same_id_same_row) auto
    then show ?thesis by simp
  qed
  then show ?thesis by auto
qed

lemmas server_defs =
  handle_def insert_post_def delete_post_def set_credentials_def insert_credentials_def
  delete_credentials_def first_credentials_def cron_check_posts_def bearer_def init_store_def
  Let_def

lemma after_setup_eval:
  "after_setup = \<lparr>db = \<lparr>posts = [created_row], next_post_id = 2, credentials = [alice],
                          next_cred_id = 2\<rparr>, world = (), calls = []\<rparr>"
  by (simp add: after_setup_def created_row_def alice_def fresh_run_def link_draft_def
      example_cfg_def server_defs)

lemma after_setup_reachable: "reachable_serially example_cfg accepting_net after_setup"
proof -
  let ?st1 = "snd (handle example_cfg accepting_net 1
          (POST_credentials ''alice.bsky.social'' ''app-password'') fresh_run)"
  have "reachable_serially example_cfg accepting_net fresh_run"
    by (rule reachable_serially.start) (simp add: fresh_run_def)
  then have "reachable_serially example_cfg accepting_net ?st1"
    by (rule reachable_serially.request) (rule surjective_pairing)
  then show ?thesis
    unfolding after_setup_def by (rule reachable_serially.request) (rule surjective_pairing)
qed

theorem status_transitions_only_from_pending_witness:
  "reachable_serially example_cfg accepting_net after_setup \<and>
   handle example_cfg accepting_net 200 (POST_cron_check_posts (Some ''Bearer s3cret'')) after_setup =
     (Success, check_posts accepting_net 200 after_setup) \<and>
   created_row \<in> set (posts (db after_setup)) \<and>
   created_row\<lparr>status := Published\<rparr> \<in> set (posts (db (check_posts accepting_net 200 after_setup))) \<and>
   post_id (created_row\<lparr>status := Published\<rparr>) = post_id created_row \<and>
   (status (created_row\<lparr>status := Published\<rparr>) = status created_row \<or>
    status created_row = Pending \<and>
    (status (created_row\<lparr>status := Published\<rparr>) = Published \<or>
     status (created_row\<lparr>status := Published\<rparr>) = Failed))"
proof -
  have h1: "reachable_serially example_cfg accepting_net after_setup" by (rule after_setup_reachable)
  have h2: "handle example_cfg accepting_net 200 (POST_cron_check_posts (Some ''Bearer s3cret'')) after_setup =
     (Success, check_posts accepting_net 200 after_setup)"
    by (simp add: handle_def cron_check_posts_def bearer_def example_cfg_def)
  have h3: "created_row \<in> set (posts (db after_setup))"
    by (simp add: after_setup_eval)
  have h4: "created_row\<lparr>status := Published\<rparr> \<in> set (posts (db (check_posts accepting_net 200 after_setup)))"
    by (simp add: after_setup_eval created_row_def alice_def accepting_net_def run_defs)
  have h5: "post_id (created_row\<lparr>status := Published\<rparr>) = post_id created_row" by simp
  from status_transitions_only_from_pending [OF h1 h2 h3 h4 h5] h1 h2 h3 h4 h5
  show ?thesis by blast
qed

section \<open>Overlapping cron runs overwrite a published post\<close>

text \<open>
  Cron runs that overlap are not coordinated, and between them published and failed
  are not terminal: a run that selected a post while it was pending writes its own
  outcome after another run has published or failed that post. A cron request that
  runs alone, as the actions have it, is the run loop of the handler: the actions add
  interleavings to the server and change nothing else.
\<close>

lemma iterate_batch:
  assumes "k < length fl" and "fl ! k = ps"
  shows "run_actions cfg net (replicate (length ps) (Iterate k)) \<lparr>current = st, in_flight = fl\<rparr> =
         Some \<lparr>current = for_each_post net ps st, in_flight = fl[k := []]\<rparr>"
  using assms
proof (induction ps arbitrary: st fl)
  case Nil
  then have "fl[k := []] = fl" by (metis list_update_id)
  then show ?case by simp
next
  case (Cons p ps)
  have "run_actions cfg net (replicate (length (p # ps)) (Iterate k)) \<lparr>current = st, in_flight = fl\<rparr> =
        run_actions cfg net (replicate (length ps) (Iterate k))
          \<lparr>current = process_post net p st, in_flight = fl[k := ps]\<rparr>"
    using Cons.prems by simp
  also have "\<dots> = Some \<lparr>current = for_each_post net ps (process_post net p st),
                         in_flight = (fl[k := ps])[k := []]\<rparr>"
    using Cons.prems by (intro Cons.IH) simp_all
  finally show ?case by simp
qed

lemma cron_alone_is_check_posts:
  "run_actions cfg net
     (Begin now (Some (bearer cfg)) #
      replicate (length (select_due now (posts (db st)))) (Iterate (length fl)))
     \<lparr>current = st, in_flight = fl\<rparr> =
   Some \<lparr>current = check_posts net now st, in_flight = fl @ [[]]\<rparr>"
  using iterate_batch [of "length fl" "fl @ [select_due now (posts (db st))]"
      "select_due now (posts (db st))" cfg net "log_call SelectDuePosts st"]
  by (simp add: check_posts_def)

lemmas overlap_defs =
  fresh_server_def setup_actions_def cron_request_def once_net_def example_cfg_def link_draft_def

text \<open>
  On the fresh server the credentials are set and a post is created; two cron requests
  are then received at instant 200 and both select the post, which is pending. The
  first runs its iteration and the post is published. The second runs its iteration on
  the row it selected, its publish call is rejected, and its \<open>catch\<close> block marks the
  published post failed.
\<close>

theorem overlapping_runs_counterexample:
  "statuses (run_actions example_cfg once_net
      (setup_actions @ [cron_request, cron_request, Iterate 0]) fresh_server) =
     Some [(1, Published)] \<and>
   statuses (run_actions example_cfg once_net
      (setup_actions @ [cron_request, cron_request, Iterate 0, Iterate 1]) fresh_server) =
     Some [(1, Failed)]"
  by (simp add: overlap_defs server_defs run_defs)


section \<open>Creating a post and listing the posts\<close>

text \<open>
  C6. On the fresh server, \<open>createPost\<close> of a draft whose \<open>url\<close> is set, followed by
  \<open>getAllPosts\<close>, returns one post with the draft's content, scheduled time and
  image, a new id, the creation instant and the status \<open>pending\<close>, but without the
  draft's \<open>url\<close>: the handler does not read \<open>url\<close> from the body and its
  \<open>INSERT\<close> leaves the column \<open>NULL\<close>.
\<close>

theorem createPost_drops_url:
  "fst (getAllPosts None example_cfg accepting_net 6
          (snd (createPost None example_cfg accepting_net 5 link_draft fresh_run))) =
     Inr (PostRows [created_row]) \<and>
   body_url link_draft = Some ''https://example.com'' \<and>
   url created_row = None"
  by (simp add: getAllPosts_def createPost_def fetch_def fetchApi_def over_http_def
      created_row_def fresh_run_def link_draft_def server_defs)

section \<open>The payload of a draft with a link and an image\<close>

text \<open>
  C7. For a draft in which both \<open>url\<close> and \<open>image\<close> are set, and with credentials
  present, the payload builder produces a payload whose embed is the link card that
  the metadata resolver returned for the url, and not an image embed.
\<close>

theorem getPostData_url_wins:
  assumes "draft_url d = Some u" and "draft_image d = Some i"
  shows "\<exists>p. getPostData env (Some creds) d = Inr p \<and>
             embed p = Some (External (fetchUrlMetadata env u creds)) \<and>
             (\<forall>imgs. embed p \<noteq> Some (Images imgs))"
  using assms by (simp add: getPostData_def)

theorem getPostData_url_wins_witness:
  "draft_url both_draft = Some ''https://example.com'' \<and>
   draft_image both_draft \<noteq> None \<and>
   (\<exists>p. getPostData example_collaborators (Some alice) both_draft = Inr p \<and>
        embed p = Some (External \<lparr>card_uri = ''https://example.com'', card_title = ''Example'',
                                   card_description = ''Test'', card_thumb = None\<rparr>) \<and>
        (\<forall>imgs. embed p \<noteq> Some (Images imgs)))"
proof -
  have h1: "draft_url both_draft = Some ''https://example.com''"
    by (simp add: both_draft_def)
  obtain i where h2: "draft_image both_draft = Some i"
    by (simp add: both_draft_def)
  have card: "fetchUrlMetadata example_collaborators ''https://example.com'' alice =
      \<lparr>card_uri = ''https://example.com'', card_title = ''Example'',
        card_description = ''Test'', card_thumb = None\<rparr>"
    by (simp add: example_collaborators_def)
  from getPostData_url_wins [OF h1 h2, of example_collaborators alice] h1 h2
  show ?thesis by (simp add: card)
qed

section \<open>Setting the credentials twice\<close>

text \<open>
  C9. After two requests that set the credentials, first to A and then to B, on any
  state of the server, the credentials table holds exactly one row, with the
  identifier and the password of B; setting the credentials is the deletion of every
  row of the table followed by the insertion of the new row.
\<close>

theorem set_credentials_twice_keeps_second:
  "credentials (db (snd (handle cfg net t2 (POST_credentials identB pwB)
      (snd (handle cfg net t1 (POST_credentials identA pwA) st))))) =
     [\<lparr>cred_id = Suc (next_cred_id (db st)), cred_identifier = identB, cred_password = pwB\<rparr>] \<and>
   set_credentials identB pwB s = insert_credentials identB pwB (delete_credentials s) \<and>
   credentials (delete_credentials s) = []"
  by (simp add: handle_def set_credentials_def insert_credentials_def delete_credentials_def)

section \<open>The remote store never throws from \<open>getCredentials\<close>\<close>

text \<open>
  C10. \<open>RemoteDB.getCredentials\<close> returns null when the request is rejected by the
  transport and when the response is not OK; whatever \<open>fetch\<close> gives, it returns
  null or a value and throws nothing. It returns null as well when the server is
  reached and holds no credential record, so that null does not tell an unreachable
  store from an empty one.
\<close>

theorem getCredentials_null_on_failure:
  "getCredentials (Rejected e) = Inr None \<and>
   getCredentials (Responded False statusText body) = Inr None \<and>
   (\<forall>f. getCredentials f = Inr None \<or> (\<exists>creds. getCredentials f = Inr (Some creds))) \<and>
   getCredentials (fst (fetch (Some e) cfg net now GET_credentials st)) = Inr None \<and>
   getCredentials (fst (fetch None cfg net now GET_credentials
      (st\<lparr>db := delete_credentials (db st)\<rparr>))) = Inr None"
  by (auto simp add: getCredentials_def fetchApi_def fetch_def over_http_def handle_def
      first_credentials_def delete_credentials_def split: fetched.splits sum.splits)

section \<open>A run without a credential record\<close>

text \<open>
  C2. On the example store without its credential record, the run at instant 100 makes
  no login call and no publish call, but it does not leave the pending posts as they
  were: in each iteration the read of \<open>creds.identifier\<close> throws, the \<open>catch\<close>
  block runs, and the two due posts are marked failed with the message of the
  \<open>TypeError\<close>.
\<close>

theorem check_posts_without_credentials_fails_due_posts:
  "credentials (db no_credentials_run) = [] \<and>
   login_calls (calls (check_posts accepting_net 100 no_credentials_run)) = [] \<and>
   publish_calls (calls (check_posts accepting_net 100 no_credentials_run)) = [] \<and>
   posts (db no_credentials_run) = [row_hello, row_done, row_later, row_again] \<and>
   posts (db (check_posts accepting_net 100 no_credentials_run)) =
     [row_hello\<lparr>status := Failed, error := Some undefined_read_message\<rparr>, row_done, row_later,
      row_again\<lparr>status := Failed, error := Some undefined_read_message\<rparr>]"
  by (simp add: no_credentials_run_def example_defs run_defs)


end
